theory Spec2Isabelle
  imports Main
begin

section \<open>The datetime library as the log analyzer uses it\<close>

text \<open>
  A naive \<open>datetime\<close> is a calendar date and a time of day with microsecond resolution, in
  the proleptic Gregorian calendar, from 0001-01-01T00:00:00.000000 to
  9999-12-31T23:59:59.999999. It is modelled by the number of microseconds since the first
  of these instants, so that the comparison \<open>>=\<close> of two datetimes is \<open>\<ge>\<close> on integers and
  subtracting a \<open>timedelta\<close> is integer subtraction followed by the range check of the
  library. Lemma \<open>datetime_new_le_iff\<close> below shows that this order is the field by field
  order in which the library compares.
\<close>

type_synonym datetime = int

definition is_leap :: "int \<Rightarrow> bool" where
  "is_leap y = (y mod 4 = 0 \<and> (y mod 100 \<noteq> 0 \<or> y mod 400 = 0))"

definition days_in_month :: "int \<Rightarrow> int \<Rightarrow> int" where
  "days_in_month y m =
     (if m = 2 then (if is_leap y then 29 else 28)
      else if m = 4 \<or> m = 6 \<or> m = 9 \<or> m = 11 then 30 else 31)"

definition days_before_year :: "int \<Rightarrow> int" where
  "days_before_year y = (y - 1) * 365 + (y - 1) div 4 - (y - 1) div 100 + (y - 1) div 400"

definition days_before_month :: "int \<Rightarrow> int \<Rightarrow> int" where
  "days_before_month y m = sum_list (map (days_in_month y) [1..m - 1])"

definition ymd2ord :: "int \<Rightarrow> int \<Rightarrow> int \<Rightarrow> int" where
  "ymd2ord y m d = days_before_year y + days_before_month y m + d"

definition us_per_hour :: int where
  "us_per_hour = 3600000000"

definition max_us :: int where
  \<comment> \<open>one more than \<open>datetime.max\<close>, whose date has ordinal 3652059\<close>
  "max_us = 3652059 * 24 * us_per_hour"

definition datetime_new :: "int \<Rightarrow> int \<Rightarrow> int \<Rightarrow> int \<Rightarrow> int \<Rightarrow> int \<Rightarrow> int \<Rightarrow> datetime option" where
  \<comment> \<open>the constructor \<open>datetime(year, month, day, hour, minute, second, microsecond)\<close>;
      \<open>None\<close> is its \<open>ValueError\<close>\<close>
  "datetime_new Y m d H M S us =
     (if 1 \<le> Y \<and> Y \<le> 9999 \<and> 1 \<le> m \<and> m \<le> 12 \<and> 1 \<le> d \<and> d \<le> days_in_month Y m
         \<and> 0 \<le> H \<and> H \<le> 23 \<and> 0 \<le> M \<and> M \<le> 59 \<and> 0 \<le> S \<and> S \<le> 59
         \<and> 0 \<le> us \<and> us \<le> 999999
      then Some ((((ymd2ord Y m d - 1) * 24 + H) * 3600 + M * 60 + S) * 1000000 + us)
      else None)"

section \<open>Log lines and the timestamp pattern\<close>

text \<open>
  A line is a \<open>string\<close>: the characters are the code points below 256, among which the
  decimal digits that \<open>\d\<close> matches are exactly \<open>0\<close> to \<open>9\<close>. A line keeps its terminator
  when it has one.
\<close>

definition is_digit :: "char \<Rightarrow> bool" where
  "is_digit c = (c \<in> set ''0123456789'')"

definition digit_val :: "char \<Rightarrow> int" where
  "digit_val c = int (of_char c) - 48"

definition int_of_str :: "string \<Rightarrow> int" where
  \<comment> \<open>\<open>int(s)\<close> on a string of decimal digits\<close>
  "int_of_str s = foldl (\<lambda>a c. 10 * a + digit_val c) 0 s"

datatype atom = Lit char | Digit

fun atom_ok :: "atom \<Rightarrow> char \<Rightarrow> bool" where
  "atom_ok (Lit x) c = (c = x)"
| "atom_ok Digit c = is_digit c"

fun match_prefix :: "atom list \<Rightarrow> string \<Rightarrow> bool" where
  "match_prefix [] s = True"
| "match_prefix (a # as) [] = False"
| "match_prefix (a # as) (c # cs) = (atom_ok a c \<and> match_prefix as cs)"

definition ts_pattern :: "atom list" where
  \<comment> \<open>\<open>\[(\d{4}-\d{2}-\d{2}T\d{2}:\d{2}:\d{2})\]\<close>\<close>
  "ts_pattern =
     [Lit CHR ''['', Digit, Digit, Digit, Digit, Lit CHR ''-'', Digit, Digit, Lit CHR ''-'',
      Digit, Digit, Lit CHR ''T'', Digit, Digit, Lit CHR '':'', Digit, Digit, Lit CHR '':'',
      Digit, Digit, Lit CHR '']'']"

fun re_search :: "string \<Rightarrow> string option" where
  \<comment> \<open>\<open>re.search\<close> with \<open>ts_pattern\<close>: the leftmost match; the result is group 1, the 19
      characters between the brackets\<close>
  "re_search [] = None"
| "re_search (c # cs) =
     (if match_prefix ts_pattern (c # cs) then Some (take 19 cs) else re_search cs)"

definition strptime :: "string \<Rightarrow> datetime option" where
  \<comment> \<open>\<open>datetime.strptime(s, "%Y-%m-%dT%H:%M:%S")\<close> on a text \<open>s\<close> of the shape
      \<open>dddd-dd-ddTdd:dd:dd\<close>, the only ones the caller passes; \<open>None\<close> is \<open>ValueError\<close>,
      raised when a field is outside the directive's range and when the constructor
      refuses the fields\<close>
  "strptime s =
     (let Y = int_of_str (take 4 s); m = int_of_str (take 2 (drop 5 s));
          d = int_of_str (take 2 (drop 8 s)); H = int_of_str (take 2 (drop 11 s));
          M = int_of_str (take 2 (drop 14 s)); S = int_of_str (take 2 (drop 17 s))
      in if 1 \<le> m \<and> m \<le> 12 \<and> 1 \<le> d \<and> d \<le> 31 \<and> H \<le> 23 \<and> M \<le> 59 \<and> S \<le> 61
         then datetime_new Y m d H M S 0 else None)"

definition parse_timestamp :: "string \<Rightarrow> datetime option" where
  "parse_timestamp line =
     (case re_search line of
        Some g \<Rightarrow> strptime g
      | None \<Rightarrow> None)"

section \<open>Counting\<close>

definition startswith :: "string \<Rightarrow> string \<Rightarrow> bool" where
  "startswith s kw = (take (length kw) s = kw)"

fun contains :: "string \<Rightarrow> string \<Rightarrow> bool" where
  \<comment> \<open>\<open>kw in line\<close>\<close>
  "contains kw [] = (kw = [])"
| "contains kw (c # cs) = (startswith (c # cs) kw \<or> contains kw cs)"

fun count_loop :: "string \<Rightarrow> datetime option \<Rightarrow> string list \<Rightarrow> nat \<Rightarrow> nat" where
  \<comment> \<open>the \<open>for line in f\<close> loop of \<open>count_matches\<close> (lines 44 to 51), from the lines
      still to come and the count so far\<close>
  "count_loop kw cutoff [] count = count"
| "count_loop kw cutoff (line # rest) count =
     count_loop kw cutoff rest
       (if contains kw line then
          (case cutoff of
             None \<Rightarrow> count + 1
           | Some c \<Rightarrow>
               (case parse_timestamp line of
                  Some log_time \<Rightarrow> if log_time \<ge> c then count + 1 else count
                | None \<Rightarrow> count))
        else count)"

section \<open>The invocation: clock, file system, \<open>count_matches\<close> and \<open>main\<close>\<close>

datatype io_error =
  FileNotFoundError | PermissionError | IsADirectoryError | OSError | UnicodeDecodeError

datatype exn = IOFailure io_error | OverflowError

text \<open>
  What iterating over an opened file gives: the lines delivered, in order, and then either
  the end of the file or the exception that ends the reading.
\<close>

record text_file =
  delivered :: "string list"
  read_failure :: "io_error option"

record args =
  arg_logfile :: string
  arg_keyword :: string
  arg_hours :: "int option"

datatype out_line =
  NotFound string
  | ErrorReading exn
  | LogAnalysis string
  | Keyword string
  | WindowLast int
  | WindowAll
  | MatchesFound nat
  | AnalysisComplete

text \<open>
  The surroundings of one run. \<open>clock w k\<close> is what \<open>datetime.now()\<close> returns when \<open>k\<close>
  lines have been read: time advances during the scan. \<open>print_ok w k l\<close> tells whether
  the call of \<open>print\<close> that writes the line \<open>l\<close> after \<open>k\<close> lines returns; otherwise it
  raises, as it does on text that the encoding of the standard output cannot take and on
  a write that fails. \<open>flush_ok w\<close> tells whether the interpreter can flush the standard
  output when it exits.
\<close>

record world =
  clock :: "nat \<Rightarrow> datetime"
  path_exists :: "string \<Rightarrow> bool"
  open_file :: "string \<Rightarrow> io_error + text_file"
  print_ok :: "nat \<Rightarrow> out_line \<Rightarrow> bool"
  flush_ok :: bool

definition cutoff_time :: "world \<Rightarrow> int option \<Rightarrow> exn + datetime option" where
  \<comment> \<open>lines 38 to 41 of \<open>count_matches\<close>: \<open>datetime.now() - timedelta(hours=hours)\<close>,
      where the timedelta and the difference raise \<open>OverflowError\<close> when the instant is
      outside the range of \<open>datetime\<close>; \<open>hours\<close> is any integer, as \<open>type=int\<close> parses it\<close>
  "cutoff_time w hours =
     (case hours of
        Some h \<Rightarrow>
          (let t = clock w 0 - h * us_per_hour
           in if 0 \<le> t \<and> t < max_us then Inr (Some t) else Inl OverflowError)
      | None \<Rightarrow> Inr None)"

definition scan_file :: "world \<Rightarrow> string \<Rightarrow> string \<Rightarrow> datetime option \<Rightarrow> exn + nat" where
  \<comment> \<open>lines 43 to 52 of \<open>count_matches\<close>: the \<open>with open(...)\<close> block and the \<open>return\<close>;
      an exception of \<open>open\<close> or of the iteration leaves the function, and the count with it\<close>
  "scan_file w filename kw cutoff =
     (case open_file w filename of
        Inl e \<Rightarrow> Inl (IOFailure e)
      | Inr f \<Rightarrow>
          (let count = count_loop kw cutoff (delivered f) 0
           in case read_failure f of
                Some e \<Rightarrow> Inl (IOFailure e)
              | None \<Rightarrow> Inr count))"

definition count_matches :: "world \<Rightarrow> string \<Rightarrow> string \<Rightarrow> int option \<Rightarrow> exn + nat" where
  \<comment> \<open>the cutoff first, then the file\<close>
  "count_matches w filename kw hours =
     (case cutoff_time w hours of
        Inl e \<Rightarrow> Inl e
      | Inr cutoff \<Rightarrow> scan_file w filename kw cutoff)"

fun print_lines :: "world \<Rightarrow> nat \<Rightarrow> out_line list \<Rightarrow> out_line list \<times> bool" where
  \<comment> \<open>consecutive calls of \<open>print\<close>, after \<open>k\<close> lines: the lines written, and whether every
      call returned; the first call that raises ends the sequence\<close>
  "print_lines w k [] = ([], True)"
| "print_lines w k (l # ls) =
     (if print_ok w k l
      then (l # fst (print_lines w (Suc k) ls), snd (print_lines w (Suc k) ls))
      else ([], False))"

definition exit_status :: "world \<Rightarrow> int \<Rightarrow> int" where
  \<comment> \<open>the status of the process: that of the run, or 120 when the flush of the standard
      output at exit fails\<close>
  "exit_status w s = (if flush_ok w then s else 120)"

definition report :: "args \<Rightarrow> nat \<Rightarrow> out_line list" where
  \<comment> \<open>the lines that \<open>main\<close> prints after \<open>count_matches\<close> has returned (lines 71 to 78)\<close>
  "report a count =
     [LogAnalysis (arg_logfile a), Keyword (arg_keyword a),
      (case arg_hours a of Some h \<Rightarrow> WindowLast h | None \<Rightarrow> WindowAll),
      MatchesFound count, AnalysisComplete]"

definition main :: "world \<Rightarrow> args \<Rightarrow> out_line list \<times> int" where
  \<comment> \<open>the lines printed and the exit status, after the arguments are parsed. The run ends
      with status 1 at \<open>sys.exit(1)\<close>, on a missing path and on any \<open>Exception\<close> of
      \<open>count_matches\<close>, and at a \<open>print\<close> that raises: none of the calls of \<open>print\<close> is
      inside a \<open>try\<close> that would catch it. It ends with status 0 when \<open>main\<close> returns.\<close>
  "main w a =
     (if \<not> path_exists w (arg_logfile a)
      then (fst (print_lines w 0 [NotFound (arg_logfile a)]), exit_status w 1)
      else
        (case count_matches w (arg_logfile a) (arg_keyword a) (arg_hours a) of
           Inl e \<Rightarrow> (fst (print_lines w 0 [ErrorReading e]), exit_status w 1)
         | Inr count \<Rightarrow>
             (case print_lines w 0 (report a count) of
                (out, ok) \<Rightarrow> (out, exit_status w (if ok then 0 else 1)))))"

section \<open>Derived notions and the example run\<close>

text \<open>
  A line counts when the loop, run on that line alone from zero, returns one.
\<close>

definition counts :: "string \<Rightarrow> datetime option \<Rightarrow> string \<Rightarrow> bool" where
  "counts kw cutoff line = (count_loop kw cutoff [line] 0 = 1)"

text \<open>
  Opening the file raises \<open>e\<close>, or reading it ends with \<open>e\<close>.
\<close>

definition input_failure :: "world \<Rightarrow> string \<Rightarrow> io_error \<Rightarrow> bool" where
  "input_failure w filename e =
     (case open_file w filename of
        Inl e' \<Rightarrow> e' = e
      | Inr f \<Rightarrow> read_failure f = Some e)"

definition scenario_lines :: "string list" where
  "scenario_lines =
     [''[2025-11-22T10:00:00] ERROR: disk full'',
      ''[2025-11-22T09:00:00] ERROR: disk full'',
      ''no timestamp here ERROR'']"

definition scenario_world :: world where
  "scenario_world =
     \<lparr>clock = (\<lambda>k. 63899404200000000 + 250 * int k),
      path_exists = (\<lambda>p. p = ''app.log'' \<or> p = ''bad.log'' \<or> p = ''locked.log''),
      open_file = (\<lambda>p.
        if p = ''app.log'' then Inr \<lparr>delivered = scenario_lines, read_failure = None\<rparr>
        else if p = ''bad.log'' then
          Inr \<lparr>delivered = [''[2025-13-99T99:99:99] ERROR''], read_failure = None\<rparr>
        else if p = ''cut.log'' then
          Inr \<lparr>delivered = scenario_lines, read_failure = Some UnicodeDecodeError\<rparr>
        else if p = ''locked.log'' then Inl PermissionError
        else Inl FileNotFoundError),
      print_ok = (\<lambda>k l. True),
      flush_ok = True\<rparr>"

text \<open>
  The library compares two datetimes field by field, from the year down to the
  microsecond: \<open>lex_less\<close> is that order on the lists of fields. \<open>time_of_day\<close> is the
  part of the encoding below the date.
\<close>

fun lex_less :: "int list \<Rightarrow> int list \<Rightarrow> bool" where
  "lex_less [] ys = (ys \<noteq> [])"
| "lex_less (x # xs) [] = False"
| "lex_less (x # xs) (y # ys) = (x < y \<or> (x = y \<and> lex_less xs ys))"

definition time_of_day :: "int \<Rightarrow> int \<Rightarrow> int \<Rightarrow> int \<Rightarrow> int" where
  "time_of_day H M S u = H * 3600000000 + M * 60000000 + S * 1000000 + u"

text \<open>Further worlds and inputs of the examples.\<close>

definition two_stamps :: string where
  "two_stamps = ''[2025-13-01T00:00:00] retry [2025-11-22T10:00:00] ERROR''"

definition frozen_world :: world where
  "frozen_world = scenario_world\<lparr>clock := (\<lambda>k. 63899404200000000)\<rparr>"

definition cut_args :: args where
  "cut_args = \<lparr>arg_logfile = ''cut.log'', arg_keyword = ''ERROR'', arg_hours = None\<rparr>"

definition cut_world :: world where
  "cut_world = scenario_world\<lparr>path_exists := (\<lambda>p. True)\<rparr>"

definition app_args :: args where
  "app_args = \<lparr>arg_logfile = ''app.log'', arg_keyword = ''ERROR'', arg_hours = None\<rparr>"

text \<open>
  A standard output whose encoding is ASCII: printing the keyword raises when the keyword
  has a character from 128 on. \<open>accent_args\<close> asks for the keyword made of the single
  character U+00E9.
\<close>

fun ascii_stdout :: "nat \<Rightarrow> out_line \<Rightarrow> bool" where
  "ascii_stdout k (Keyword s) = list_all (\<lambda>c. (of_char c :: nat) < 128) s"
| "ascii_stdout k l = True"

definition ascii_world :: world where
  "ascii_world = cut_world\<lparr>print_ok := ascii_stdout\<rparr>"

definition accent_args :: args where
  "accent_args = \<lparr>arg_logfile = ''app.log'', arg_keyword = [CHR 0xE9], arg_hours = None\<rparr>"

definition full_world :: world where
  \<comment> \<open>every call of \<open>print\<close> returns and the flush at exit fails, as on a full device\<close>
  "full_world = cut_world\<lparr>flush_ok := False\<rparr>"

section \<open>Properties\<close>

subsection \<open>The integer encoding of datetimes keeps the order of the fields\<close>

lemma div_step:
  fixes y n :: int
  assumes "0 < n"
  shows "y div n = (y - 1) div n + (if y mod n = 0 then 1 else 0)"
proof -
  define q where "q = (y - 1) div n"
  define r where "r = (y - 1) mod n"
  have r: "0 \<le> r" "r < n" using assms by (simp_all add: r_def)
  have "y - 1 = n * q + r" by (simp add: q_def r_def)
  then have y: "y = n * q + (r + 1)" by simp
  show ?thesis
  proof (cases "r + 1 = n")
    case True
    then have "y = (q + 1) * n" using y by (simp add: algebra_simps)
    then have "y div n = q + 1" "y mod n = 0"
      using assms by simp_all
    then show ?thesis by (simp add: q_def)
  next
    case False
    with r have b: "0 \<le> r + 1" "r + 1 < n" by simp_all
    have "y div n = q" using y b by (rule int_div_pos_eq)
    moreover have "y mod n = r + 1" using y b by (rule int_mod_pos_eq)
    ultimately show ?thesis using r by (simp add: q_def)
  qed
qed

lemma mod_0_dvd:
  fixes y :: int
  assumes "y mod b = 0" and "a dvd b"
  shows "y mod a = 0"
proof -
  from assms(1) have "b dvd y" by (simp add: mod_eq_0_iff_dvd)
  with assms(2) have "a dvd y" by (rule dvd_trans)
  then show ?thesis by (simp add: mod_eq_0_iff_dvd)
qed

lemma leap_days:
  "(if y mod 4 = 0 then 1 else 0) - (if y mod 100 = 0 then 1 else 0)
     + (if y mod 400 = 0 then 1 else 0) = (if is_leap y then 1 else (0::int))"
proof (cases "y mod 400 = 0")
  case True
  then have c: "y mod 100 = 0" by (rule mod_0_dvd) simp
  then have "y mod 4 = 0" by (rule mod_0_dvd) simp
  with True c show ?thesis by (simp add: is_leap_def)
next
  case False
  show ?thesis
  proof (cases "y mod 100 = 0")
    case True
    then have "y mod 4 = 0" by (rule mod_0_dvd) simp
    with True False show ?thesis by (simp add: is_leap_def)
  next
    case False
    with \<open>y mod 400 \<noteq> 0\<close> show ?thesis by (simp add: is_leap_def)
  qed
qed

lemma days_before_year_Suc:
  "days_before_year (y + 1) = days_before_year y + (if is_leap y then 366 else 365)"
proof -
  have a: "y div 4 = (y - 1) div 4 + (if y mod 4 = 0 then 1 else 0)"
    by (rule div_step) simp
  have b: "y div 100 = (y - 1) div 100 + (if y mod 100 = 0 then 1 else 0)"
    by (rule div_step) simp
  have c: "y div 400 = (y - 1) div 400 + (if y mod 400 = 0 then 1 else 0)"
    by (rule div_step) simp
  have "days_before_year (y + 1) = y * 365 + y div 4 - y div 100 + y div 400"
    by (simp add: days_before_year_def)
  also have "\<dots> = days_before_year y + 365 + ((if y mod 4 = 0 then 1 else 0)
      - (if y mod 100 = 0 then 1 else 0) + (if y mod 400 = 0 then 1 else 0))"
    unfolding a b c days_before_year_def by (simp add: algebra_simps)
  also have "\<dots> = days_before_year y + 365 + (if is_leap y then 1 else 0)"
    by (simp only: leap_days)
  finally show ?thesis by simp
qed

lemma days_in_month_pos: "28 \<le> days_in_month y m"
  by (simp add: days_in_month_def)

lemma days_before_year_mono: "y \<le> y' \<Longrightarrow> days_before_year y \<le> days_before_year y'"
proof (induction y' rule: int_ge_induct)
  case base
  show ?case by simp
next
  case (step i)
  then show ?case by (simp add: days_before_year_Suc)
qed

lemma days_before_month_Suc:
  "1 \<le> m \<Longrightarrow> days_before_month y (m + 1) = days_before_month y m + days_in_month y m"
  by (simp add: days_before_month_def upto_rec2)

lemma days_before_month_mono:
  assumes "1 \<le> m" and "m \<le> m'"
  shows "days_before_month y m \<le> days_before_month y m'"
  using assms(2)
proof (induction m' rule: int_ge_induct)
  case base
  show ?case by simp
next
  case (step i)
  have "0 \<le> days_in_month y i" using days_in_month_pos [of y i] by simp
  with step assms(1) show ?case by (simp add: days_before_month_Suc)
qed

lemma days_before_month_13:
  "days_before_month y 13 = (if is_leap y then 366 else 365)"
  by (simp add: days_before_month_def days_in_month_def upto.simps)

lemma day_of_year_le:
  assumes "1 \<le> m" "m \<le> 12" "d \<le> days_in_month y m"
  shows "days_before_month y m + d \<le> (if is_leap y then 366 else 365)"
proof -
  have "days_before_month y m + d \<le> days_before_month y (m + 1)"
    using assms by (simp add: days_before_month_Suc)
  also have "\<dots> \<le> days_before_month y 13"
    using assms by (intro days_before_month_mono) simp_all
  finally show ?thesis by (simp add: days_before_month_13)
qed

lemma ymd2ord_year_less:
  assumes "Y < Y'" "1 \<le> m" "m \<le> 12" "d \<le> days_in_month Y m" "1 \<le> m'" "1 \<le> d'"
  shows "ymd2ord Y m d < ymd2ord Y' m' d'"
proof -
  have "ymd2ord Y m d \<le> days_before_year (Y + 1)"
    using day_of_year_le [OF assms(2,3,4)]
    by (simp add: ymd2ord_def days_before_year_Suc split: if_splits)
  also have "\<dots> \<le> days_before_year Y'"
    using assms(1) by (intro days_before_year_mono) simp
  also have "\<dots> \<le> days_before_year Y' + days_before_month Y' 1"
    by (simp add: days_before_month_def)
  also have "\<dots> \<le> days_before_year Y' + days_before_month Y' m'"
    using assms(5) days_before_month_mono [of 1 m' Y'] by simp
  also have "\<dots> < ymd2ord Y' m' d'"
    using assms(6) by (simp add: ymd2ord_def)
  finally show ?thesis .
qed

lemma ymd2ord_month_less:
  assumes "m < m'" "1 \<le> m" "d \<le> days_in_month Y m" "1 \<le> d'"
  shows "ymd2ord Y m d < ymd2ord Y m' d'"
proof -
  have "days_before_month Y m + d \<le> days_before_month Y (m + 1)"
    using assms by (simp add: days_before_month_Suc)
  also have "\<dots> \<le> days_before_month Y m'"
    using assms by (intro days_before_month_mono) simp_all
  finally show ?thesis using assms(4) by (simp add: ymd2ord_def)
qed

lemma datetime_new_value:
  assumes "datetime_new Y m d H M S u = Some t"
  shows "t = (ymd2ord Y m d - 1) * 86400000000 + time_of_day H M S u"
    and "1 \<le> m" "m \<le> 12" "1 \<le> d" "d \<le> days_in_month Y m"
    and "0 \<le> H" "H \<le> 23" "0 \<le> M" "M \<le> 59" "0 \<le> S" "S \<le> 59" "0 \<le> u" "u \<le> 999999"
  using assms by (auto simp: datetime_new_def time_of_day_def algebra_simps split: if_splits)

lemma time_of_day_bounds:
  assumes "0 \<le> H" "H \<le> 23" "0 \<le> M" "M \<le> 59" "0 \<le> S" "S \<le> 59" "0 \<le> u" "u \<le> 999999"
  shows "0 \<le> time_of_day H M S u" and "time_of_day H M S u < 86400000000"
  using assms unfolding time_of_day_def by simp_all

lemma lex_step:
  fixes a b c r r' :: int
  assumes "a < b" "0 < c" "r < c" "0 \<le> r'"
  shows "a * c + r < b * c + r'"
proof -
  have "(a + 1) * c \<le> b * c"
    using assms(1,2) by (intro mult_right_mono) simp_all
  with assms(3,4) show ?thesis by (simp add: algebra_simps)
qed

lemma time_of_day_less:
  assumes "0 \<le> M" "M \<le> 59" "0 \<le> S" "S \<le> 59" "0 \<le> u" "u \<le> 999999"
    and "0 \<le> M'" "M' \<le> 59" "0 \<le> S'" "S' \<le> 59" "0 \<le> u'" "u' \<le> 999999"
    and "H < H' \<or> (H = H' \<and> (M < M' \<or> (M = M' \<and> (S < S' \<or> (S = S' \<and> u < u')))))"
  shows "time_of_day H M S u < time_of_day H' M' S' u'"
proof -
  have s: "S * 1000000 + u < 60000000" "0 \<le> S * 1000000 + u"
    using assms(3-6) by simp_all
  have s': "S' * 1000000 + u' < 60000000" "0 \<le> S' * 1000000 + u'"
    using assms(9-12) by simp_all
  have m: "M * 60000000 + (S * 1000000 + u) < 3600000000"
    using assms(2) s by simp
  have m': "0 \<le> M' * 60000000 + (S' * 1000000 + u')"
    using assms(7) s' by simp
  from assms(13) consider "H < H'" | "H = H'" "M < M'" | "H = H'" "M = M'" "S < S'"
    | "H = H'" "M = M'" "S = S'" "u < u'"
    by blast
  then show ?thesis
  proof cases
    case 1
    then have "H * 3600000000 + (M * 60000000 + (S * 1000000 + u))
        < H' * 3600000000 + (M' * 60000000 + (S' * 1000000 + u'))"
      using m m' by (intro lex_step) simp_all
    then show ?thesis by (simp add: time_of_day_def)
  next
    case 2
    then have "M * 60000000 + (S * 1000000 + u) < M' * 60000000 + (S' * 1000000 + u')"
      using s s' by (intro lex_step) simp_all
    with 2 show ?thesis by (simp add: time_of_day_def)
  next
    case 3
    then have "S * 1000000 + u < S' * 1000000 + u'"
      using assms(5,6,11,12) by (intro lex_step) simp_all
    with 3 show ?thesis by (simp add: time_of_day_def)
  next
    case 4
    then show ?thesis by (simp add: time_of_day_def)
  qed
qed

lemma datetime_new_less:
  assumes a: "datetime_new Y m d H M S u = Some t"
    and b: "datetime_new Y' m' d' H' M' S' u' = Some t'"
    and l: "lex_less [Y, m, d, H, M, S, u] [Y', m', d', H', M', S', u']"
  shows "t < t'"
proof -
  note va = datetime_new_value [OF a]
  note vb = datetime_new_value [OF b]
  have ta: "time_of_day H M S u < 86400000000"
    using va by (simp add: time_of_day_bounds)
  have tb: "0 \<le> time_of_day H' M' S' u'"
    using vb by (simp add: time_of_day_bounds)
  have date: "t < t'" if "ymd2ord Y m d < ymd2ord Y' m' d'"
  proof -
    have "(ymd2ord Y m d - 1) * 86400000000 + time_of_day H M S u
        < (ymd2ord Y' m' d' - 1) * 86400000000 + time_of_day H' M' S' u'"
      using that ta tb by (intro lex_step) simp_all
    then show ?thesis unfolding va(1) vb(1) .
  qed
  from l consider
      (year) "Y < Y'"
    | (month) "Y = Y'" "m < m'"
    | (day) "Y = Y'" "m = m'" "d < d'"
    | (time) "Y = Y'" "m = m'" "d = d'"
        "H < H' \<or> (H = H' \<and> (M < M' \<or> (M = M' \<and> (S < S' \<or> (S = S' \<and> u < u')))))"
    by auto
  then show ?thesis
  proof cases
    case year
    then have "ymd2ord Y m d < ymd2ord Y' m' d'"
      using ymd2ord_year_less [of Y Y' m d m' d'] va(2-5) vb(2-5) by simp
    then show ?thesis by (rule date)
  next
    case month
    then have "ymd2ord Y m d < ymd2ord Y' m' d'"
      using ymd2ord_month_less [of m m' d Y d'] va(2-5) vb(2-5) by simp
    then show ?thesis by (rule date)
  next
    case day
    then have "ymd2ord Y m d < ymd2ord Y' m' d'"
      by (simp add: ymd2ord_def)
    then show ?thesis by (rule date)
  next
    case time
    have "time_of_day H M S u < time_of_day H' M' S' u'"
      using va(8-13) vb(8-13) time(4) by (rule time_of_day_less)
    with time(1-3) show ?thesis unfolding va(1) vb(1) by simp
  qed
qed

lemma lex_less_total:
  "length xs = length ys \<Longrightarrow> lex_less xs ys \<or> xs = ys \<or> lex_less ys xs"
  by (induction xs ys rule: list_induct2) auto

lemma datetime_new_le_iff:
  assumes a: "datetime_new Y m d H M S u = Some t"
    and b: "datetime_new Y' m' d' H' M' S' u' = Some t'"
  shows "t' \<le> t \<longleftrightarrow> \<not> lex_less [Y, m, d, H, M, S, u] [Y', m', d', H', M', S', u']"
proof
  assume "t' \<le> t"
  then show "\<not> lex_less [Y, m, d, H, M, S, u] [Y', m', d', H', M', S', u']"
    using datetime_new_less [OF a b] by fastforce
next
  assume n: "\<not> lex_less [Y, m, d, H, M, S, u] [Y', m', d', H', M', S', u']"
  have "length [Y, m, d, H, M, S, u] = length [Y', m', d', H', M', S', u']" by simp
  from lex_less_total [OF this] n
  consider "[Y, m, d, H, M, S, u] = [Y', m', d', H', M', S', u']"
    | "lex_less [Y', m', d', H', M', S', u'] [Y, m, d, H, M, S, u]"
    by blast
  then show "t' \<le> t"
  proof cases
    case 1
    with a b show ?thesis by simp
  next
    case 2
    then show ?thesis using datetime_new_less [OF b a] by simp
  qed
qed

subsection \<open>Keyword containment, the loop and the search\<close>

lemma startswith_iff: "startswith s kw \<longleftrightarrow> (\<exists>t. s = kw @ t)"
proof
  assume "startswith s kw"
  then have "s = kw @ drop (length kw) s"
    unfolding startswith_def by (metis append_take_drop_id)
  then show "\<exists>t. s = kw @ t" ..
next
  assume "\<exists>t. s = kw @ t"
  then show "startswith s kw" unfolding startswith_def by auto
qed

lemma contains_iff: "contains kw line \<longleftrightarrow> (\<exists>p s. line = p @ kw @ s)"
proof (induction line)
  case Nil
  show ?case by auto
next
  case (Cons c cs)
  show ?case
  proof
    assume "contains kw (c # cs)"
    then consider "startswith (c # cs) kw" | "contains kw cs" by auto
    then show "\<exists>p s. c # cs = p @ kw @ s"
    proof cases
      case 1
      then obtain t where "c # cs = kw @ t" using startswith_iff by blast
      then have "c # cs = [] @ kw @ t" by simp
      then show ?thesis by blast
    next
      case 2
      then obtain p s where "cs = p @ kw @ s" using Cons.IH by blast
      then have "c # cs = (c # p) @ kw @ s" by simp
      then show ?thesis by blast
    qed
  next
    assume "\<exists>p s. c # cs = p @ kw @ s"
    then obtain p s where ps: "c # cs = p @ kw @ s" by blast
    show "contains kw (c # cs)"
    proof (cases p)
      case Nil
      with ps have "startswith (c # cs) kw" using startswith_iff by auto
      then show ?thesis by simp
    next
      case (Cons a p')
      with ps have "cs = p' @ kw @ s" by simp
      then have "contains kw cs" using Cons.IH by blast
      then show ?thesis by simp
    qed
  qed
qed

lemma counts_iff:
  "counts kw cutoff line \<longleftrightarrow>
     contains kw line \<and>
     (case cutoff of None \<Rightarrow> True
      | Some c \<Rightarrow> (case parse_timestamp line of None \<Rightarrow> False | Some t \<Rightarrow> c \<le> t))"
  by (simp add: counts_def split: option.splits)

lemma count_loop_step:
  "count_loop kw cutoff (line # rest) n =
     count_loop kw cutoff rest (if counts kw cutoff line then n + 1 else n)"
  by (simp add: counts_iff split: option.splits)

lemma count_loop_filter:
  "count_loop kw cutoff ls n = n + length (filter (counts kw cutoff) ls)"
proof (induction ls arbitrary: n)
  case Nil
  show ?case by simp
next
  case (Cons l ls)
  show ?case unfolding count_loop_step by (simp add: Cons.IH)
qed

lemma count_loop_append:
  "count_loop kw cutoff (xs @ ys) n = count_loop kw cutoff ys (count_loop kw cutoff xs n)"
  by (induction xs arbitrary: n) (simp_all del: count_loop.simps(2) add: count_loop_step)

lemma match_prefix_Nil [simp]: "\<not> match_prefix ts_pattern []"
  by (simp add: ts_pattern_def)

lemma re_search_None_iff:
  "re_search s = None \<longleftrightarrow> (\<forall>i. \<not> match_prefix ts_pattern (drop i s))"
proof (induction s)
  case Nil
  show ?case by simp
next
  case (Cons c cs)
  show ?case
  proof (cases "match_prefix ts_pattern (c # cs)")
    case True
    then have "match_prefix ts_pattern (drop 0 (c # cs))" by simp
    with True show ?thesis by (metis re_search.simps(2) option.distinct(1))
  next
    case False
    have "(\<forall>i. \<not> match_prefix ts_pattern (drop i (c # cs))) \<longleftrightarrow>
          (\<forall>i. \<not> match_prefix ts_pattern (drop i cs))"
    proof
      assume h: "\<forall>i. \<not> match_prefix ts_pattern (drop i (c # cs))"
      show "\<forall>i. \<not> match_prefix ts_pattern (drop i cs)"
      proof
        fix i
        from h have "\<not> match_prefix ts_pattern (drop (Suc i) (c # cs))" by blast
        then show "\<not> match_prefix ts_pattern (drop i cs)" by simp
      qed
    next
      assume h: "\<forall>i. \<not> match_prefix ts_pattern (drop i cs)"
      show "\<forall>i. \<not> match_prefix ts_pattern (drop i (c # cs))"
      proof
        fix i
        show "\<not> match_prefix ts_pattern (drop i (c # cs))"
          using h False by (cases i) simp_all
      qed
    qed
    with False Cons.IH show ?thesis by simp
  qed
qed

lemma re_search_first:
  "match_prefix ts_pattern (drop i s) \<Longrightarrow> (\<forall>j<i. \<not> match_prefix ts_pattern (drop j s)) \<Longrightarrow>
   re_search s = Some (take 19 (drop (Suc i) s))"
proof (induction s arbitrary: i)
  case Nil
  then show ?case by simp
next
  case (Cons c cs)
  show ?case
  proof (cases i)
    case 0
    with Cons.prems(1) show ?thesis by simp
  next
    case (Suc k)
    with Cons.prems(2) have "\<not> match_prefix ts_pattern (drop 0 (c # cs))" by blast
    then have nm: "\<not> match_prefix ts_pattern (c # cs)" by simp
    from Suc Cons.prems(1) have m: "match_prefix ts_pattern (drop k cs)" by simp
    have "\<forall>j<k. \<not> match_prefix ts_pattern (drop j cs)"
    proof (intro allI impI)
      fix j assume "j < k"
      then have "Suc j < i" using Suc by simp
      with Cons.prems(2) have "\<not> match_prefix ts_pattern (drop (Suc j) (c # cs))" by blast
      then show "\<not> match_prefix ts_pattern (drop j cs)" by simp
    qed
    with m have "re_search cs = Some (take 19 (drop (Suc k) cs))" by (rule Cons.IH)
    with nm Suc show ?thesis by simp
  qed
qed

text \<open>
  Claim C1. \<open>count_matches\<close> counts a line exactly when the keyword occurs in it as a
  contiguous substring, compared character by character, and either there is no cutoff or
  \<open>parse_timestamp\<close> returns a timestamp that is at least the cutoff. The count returned
  is the number of such lines among the lines delivered, in their order.
\<close>

theorem count_matches_counts_matching_lines:
  "(counts kw cutoff line \<longleftrightarrow>
      (\<exists>p s. line = p @ kw @ s) \<and>
      (cutoff = None \<or> (\<exists>t c. parse_timestamp line = Some t \<and> cutoff = Some c \<and> c \<le> t)))
   \<and> count_loop kw cutoff ls 0 = length (filter (counts kw cutoff) ls)
   \<and> (cutoff_time w hours = Inr cutoff \<and> open_file w fn = Inr f \<and> read_failure f = None \<longrightarrow>
        count_matches w fn kw hours = Inr (length (filter (counts kw cutoff) (delivered f))))"
proof (intro conjI impI)
  show "counts kw cutoff line \<longleftrightarrow>
      (\<exists>p s. line = p @ kw @ s) \<and>
      (cutoff = None \<or> (\<exists>t c. parse_timestamp line = Some t \<and> cutoff = Some c \<and> c \<le> t))"
    unfolding counts_iff contains_iff by (auto split: option.splits)
  show "count_loop kw cutoff ls 0 = length (filter (counts kw cutoff) ls)"
    by (simp add: count_loop_filter)
  assume "cutoff_time w hours = Inr cutoff \<and> open_file w fn = Inr f \<and> read_failure f = None"
  then show "count_matches w fn kw hours = Inr (length (filter (counts kw cutoff) (delivered f)))"
    by (simp add: count_matches_def scan_file_def count_loop_filter)
qed

lemma scenario_cutoff:
  "cutoff_time scenario_world (Some 1) = Inr (Some 63899400600000000)"
  by (simp add: cutoff_time_def scenario_world_def us_per_hour_def max_us_def)

lemma scenario_open:
  "open_file scenario_world ''app.log'' = Inr \<lparr>delivered = scenario_lines, read_failure = None\<rparr>"
  by (simp add: scenario_world_def)

theorem count_matches_counts_matching_lines_witness:
  "cutoff_time scenario_world (Some 1) = Inr (Some 63899400600000000) \<and>
   open_file scenario_world ''app.log'' = Inr \<lparr>delivered = scenario_lines, read_failure = None\<rparr> \<and>
   count_matches scenario_world ''app.log'' ''ERROR'' (Some 1) =
     Inr (length (filter (counts ''ERROR'' (Some 63899400600000000)) scenario_lines))"
  using count_matches_counts_matching_lines [of "''ERROR''" "Some 63899400600000000" "[]" "[]" scenario_world "Some 1" "''app.log''"
      "\<lparr>delivered = scenario_lines, read_failure = None\<rparr>"]
    scenario_cutoff scenario_open
  by simp

subsection \<open>The claims on timestamps, failures and the example run\<close>

lemma parse_timestamp_None_iff:
  "parse_timestamp line = None \<longleftrightarrow>
     re_search line = None \<or> (\<exists>g. re_search line = Some g \<and> strptime g = None)"
  by (simp add: parse_timestamp_def split: option.splits)

lemma scan_file_ok:
  "open_file w fn = Inr f \<Longrightarrow> read_failure f = None \<Longrightarrow>
   scan_file w fn kw cutoff = Inr (count_loop kw cutoff (delivered f) 0)"
  by (simp add: scan_file_def)

text \<open>
  Claim C2. When the search finds no timestamp in a line, or finds one that \<open>strptime\<close>
  refuses, \<open>parse_timestamp\<close> returns \<open>None\<close> instead of raising, the line does not
  count under any cutoff whatever the keyword, the count of the other lines is what it
  would be without that line, and the scan of a readable file still returns its count.
\<close>

theorem unparsable_timestamp_excluded:
  assumes "re_search line = None \<or> (\<exists>g. re_search line = Some g \<and> strptime g = None)"
  shows "parse_timestamp line = None
     \<and> \<not> counts kw (Some c) line
     \<and> count_loop kw (Some c) (before @ line # after) n =
         count_loop kw (Some c) (before @ after) n
     \<and> (open_file w fn = Inr f \<and> read_failure f = None \<and> delivered f = before @ line # after \<longrightarrow>
          scan_file w fn kw (Some c) = Inr (count_loop kw (Some c) (before @ after) 0))"
proof -
  from assms have none: "parse_timestamp line = None"
    by (simp add: parse_timestamp_None_iff)
  then have excl: "\<not> counts kw (Some c) line"
    by (simp add: counts_iff)
  have skip: "count_loop kw (Some c) (before @ line # after) m =
      count_loop kw (Some c) (before @ after) m" for m
    using excl by (simp add: count_loop_filter)
  have "scan_file w fn kw (Some c) = Inr (count_loop kw (Some c) (before @ after) 0)"
    if "open_file w fn = Inr f \<and> read_failure f = None \<and> delivered f = before @ line # after"
    using that scan_file_ok [of w fn f kw "Some c"] skip [of 0] by simp
  with none excl skip show ?thesis by blast
qed

lemma bad_line_search:
  "re_search ''[2025-13-99T99:99:99] ERROR'' = Some ''2025-13-99T99:99:99''"
  by code_simp

lemma bad_line_strptime: "strptime ''2025-13-99T99:99:99'' = None"
  by code_simp

lemma bad_open:
  "open_file scenario_world ''bad.log'' =
     Inr \<lparr>delivered = [''[2025-13-99T99:99:99] ERROR''], read_failure = None\<rparr>"
  by (simp add: scenario_world_def)

theorem unparsable_timestamp_excluded_witness:
  "(re_search ''[2025-13-99T99:99:99] ERROR'' = None \<or>
     (\<exists>g. re_search ''[2025-13-99T99:99:99] ERROR'' = Some g \<and> strptime g = None))
   \<and> contains ''ERROR'' ''[2025-13-99T99:99:99] ERROR''
   \<and> parse_timestamp ''[2025-13-99T99:99:99] ERROR'' = None
   \<and> \<not> counts ''ERROR'' (Some 63899400600000000) ''[2025-13-99T99:99:99] ERROR''
   \<and> scan_file scenario_world ''bad.log'' ''ERROR'' (Some 63899400600000000) = Inr 0"
proof -
  have h: "re_search ''[2025-13-99T99:99:99] ERROR'' = None \<or>
     (\<exists>g. re_search ''[2025-13-99T99:99:99] ERROR'' = Some g \<and> strptime g = None)"
    using bad_line_search bad_line_strptime by simp
  have k: "contains ''ERROR'' ''[2025-13-99T99:99:99] ERROR''"
    by code_simp
  from unparsable_timestamp_excluded [OF h, of "''ERROR''" 63899400600000000 "[]" "[]" 0
      scenario_world "''bad.log''"
      "\<lparr>delivered = [''[2025-13-99T99:99:99] ERROR''], read_failure = None\<rparr>"]
    bad_open h k
  show ?thesis by simp
qed

text \<open>
  Claim C3. Under a cutoff, a line that holds the keyword and whose timestamp equals the
  cutoff counts, and a line whose timestamp is before the cutoff does not count, with or
  without the keyword.
\<close>

theorem cutoff_bound_inclusive:
  assumes "parse_timestamp line = Some t"
  shows "(contains kw line \<and> t = c \<longrightarrow>
            counts kw (Some c) line \<and> count_loop kw (Some c) [line] n = n + 1)
       \<and> (t < c \<longrightarrow> \<not> counts kw (Some c) line \<and> count_loop kw (Some c) [line] n = n)"
  using assms by (simp add: counts_iff)

lemma line_0930: "parse_timestamp ''[2025-11-22T09:30:00] ERROR'' = Some 63899400600000000"
  by code_simp

lemma line_0900:
  "parse_timestamp ''[2025-11-22T09:00:00] ERROR: disk full'' = Some 63899398800000000"
  by code_simp

theorem cutoff_bound_inclusive_witness:
  "parse_timestamp ''[2025-11-22T09:30:00] ERROR'' = Some 63899400600000000
   \<and> contains ''ERROR'' ''[2025-11-22T09:30:00] ERROR''
   \<and> counts ''ERROR'' (Some 63899400600000000) ''[2025-11-22T09:30:00] ERROR''
   \<and> parse_timestamp ''[2025-11-22T09:00:00] ERROR: disk full'' = Some 63899398800000000
   \<and> contains ''ERROR'' ''[2025-11-22T09:00:00] ERROR: disk full''
   \<and> (63899398800000000 :: int) < 63899400600000000
   \<and> \<not> counts ''ERROR'' (Some 63899400600000000) ''[2025-11-22T09:00:00] ERROR: disk full''"
proof -
  have k1: "contains ''ERROR'' ''[2025-11-22T09:30:00] ERROR''" by code_simp
  have k2: "contains ''ERROR'' ''[2025-11-22T09:00:00] ERROR: disk full''" by code_simp
  have lt: "(63899398800000000 :: int) < 63899400600000000" by simp
  from cutoff_bound_inclusive [OF line_0930, of "''ERROR''" 63899400600000000 0] k1
  have a: "counts ''ERROR'' (Some 63899400600000000) ''[2025-11-22T09:30:00] ERROR''"
    by blast
  from cutoff_bound_inclusive [OF line_0900, of "''ERROR''" 63899400600000000 0] lt
  have b: "\<not> counts ''ERROR'' (Some 63899400600000000) ''[2025-11-22T09:00:00] ERROR: disk full''"
    by blast
  from a b k1 k2 lt line_0930 line_0900 show ?thesis by blast
qed

text \<open>
  Claim C4. When the bracketed pattern matches nowhere in the line, \<open>parse_timestamp\<close>
  returns \<open>None\<close>. When it matches, the result is what \<open>strptime\<close> makes of the text
  captured at the leftmost match alone: \<open>None\<close> when that text is not a calendar date and
  time, whatever follows in the line.
\<close>

theorem parse_timestamp_first_occurrence:
  "((\<forall>i. \<not> match_prefix ts_pattern (drop i line)) \<longrightarrow> parse_timestamp line = None)
   \<and> (match_prefix ts_pattern (drop i line) \<and> (\<forall>j<i. \<not> match_prefix ts_pattern (drop j line)) \<longrightarrow>
        parse_timestamp line = strptime (take 19 (drop (Suc i) line))
        \<and> (strptime (take 19 (drop (Suc i) line)) = None \<longrightarrow> parse_timestamp line = None))"
proof (intro conjI impI)
  assume "\<forall>i. \<not> match_prefix ts_pattern (drop i line)"
  then have "re_search line = None" by (simp add: re_search_None_iff)
  then show "parse_timestamp line = None" by (simp add: parse_timestamp_def)
next
  assume h: "match_prefix ts_pattern (drop i line) \<and>
    (\<forall>j<i. \<not> match_prefix ts_pattern (drop j line))"
  then have "re_search line = Some (take 19 (drop (Suc i) line))"
    using re_search_first [of i line] by blast
  then show eq: "parse_timestamp line = strptime (take 19 (drop (Suc i) line))"
    by (simp add: parse_timestamp_def)
  assume "strptime (take 19 (drop (Suc i) line)) = None"
  with eq show "parse_timestamp line = None" by simp
qed

lemma two_stamps_first: "match_prefix ts_pattern (drop 0 two_stamps)"
  by code_simp

lemma two_stamps_second: "match_prefix ts_pattern (drop 28 two_stamps)"
  by code_simp

lemma two_stamps_inner:
  "take 19 (drop (Suc 0) two_stamps) = ''2025-13-01T00:00:00'' \<and>
   take 19 (drop (Suc 28) two_stamps) = ''2025-11-22T10:00:00''"
  by code_simp

lemma month_13: "strptime ''2025-13-01T00:00:00'' = None"
  by code_simp

lemma later_valid: "strptime ''2025-11-22T10:00:00'' = Some 63899402400000000"
  by code_simp

lemma no_stamp_search: "re_search ''no timestamp here ERROR'' = None"
  by code_simp

theorem parse_timestamp_first_occurrence_witness:
  "(\<forall>i. \<not> match_prefix ts_pattern (drop i ''no timestamp here ERROR''))
   \<and> parse_timestamp ''no timestamp here ERROR'' = None
   \<and> match_prefix ts_pattern (drop 0 two_stamps)
   \<and> strptime (take 19 (drop (Suc 0) two_stamps)) = None
   \<and> match_prefix ts_pattern (drop 28 two_stamps)
   \<and> strptime (take 19 (drop (Suc 28) two_stamps)) = Some 63899402400000000
   \<and> parse_timestamp two_stamps = None"
proof -
  have a: "\<forall>i. \<not> match_prefix ts_pattern (drop i ''no timestamp here ERROR'')"
    using no_stamp_search re_search_None_iff by blast
  have b: "parse_timestamp ''no timestamp here ERROR'' = None"
    using parse_timestamp_first_occurrence [of "''no timestamp here ERROR''" 0] a by blast
  have c: "\<forall>j<0::nat. \<not> match_prefix ts_pattern (drop j two_stamps)" by simp
  have d: "strptime (take 19 (drop (Suc 0) two_stamps)) = None"
    using two_stamps_inner month_13 by simp
  have e: "strptime (take 19 (drop (Suc 28) two_stamps)) = Some 63899402400000000"
    using two_stamps_inner later_valid by simp
  have f: "parse_timestamp two_stamps = None"
    using parse_timestamp_first_occurrence [of two_stamps 0] two_stamps_first c d by blast
  from a b d e f two_stamps_first two_stamps_second show ?thesis by blast
qed

lemma cutoff_time_cases:
  "cutoff_time w (Some h) =
     (if 0 \<le> clock w 0 - h * us_per_hour \<and> clock w 0 - h * us_per_hour < max_us
      then Inr (Some (clock w 0 - h * us_per_hour)) else Inl OverflowError)"
  by (simp add: cutoff_time_def Let_def)

text \<open>
  Claim C5, amended. When the instant \<open>now - N hours\<close> is one that a datetime can hold,
  the cutoff is the clock reading at the start of the run minus \<open>N\<close> hours, every line
  delivered is judged against that one value, and the result is the same in a world
  whose clock differs at every later reading. When the instant is outside the range of
  datetime, the run fails with \<open>OverflowError\<close> before the file is opened.
\<close>

theorem cutoff_computed_once:
  "(0 \<le> clock w 0 - h * us_per_hour \<and> clock w 0 - h * us_per_hour < max_us \<longrightarrow>
      cutoff_time w (Some h) = Inr (Some (clock w 0 - h * us_per_hour))
      \<and> (open_file w fn = Inr f \<and> read_failure f = None \<longrightarrow>
           count_matches w fn kw (Some h) =
             Inr (length (filter (counts kw (Some (clock w 0 - h * us_per_hour))) (delivered f))))
      \<and> (clock w' 0 = clock w 0 \<and> open_file w' fn = open_file w fn \<longrightarrow>
           count_matches w' fn kw (Some h) = count_matches w fn kw (Some h)))
   \<and> (\<not> (0 \<le> clock w 0 - h * us_per_hour \<and> clock w 0 - h * us_per_hour < max_us) \<longrightarrow>
        count_matches w fn kw (Some h) = Inl OverflowError)"
proof (intro conjI impI)
  assume r: "0 \<le> clock w 0 - h * us_per_hour \<and> clock w 0 - h * us_per_hour < max_us"
  then show c: "cutoff_time w (Some h) = Inr (Some (clock w 0 - h * us_per_hour))"
    by (simp add: cutoff_time_cases)
  {
    assume "open_file w fn = Inr f \<and> read_failure f = None"
    with c show "count_matches w fn kw (Some h) =
        Inr (length (filter (counts kw (Some (clock w 0 - h * us_per_hour))) (delivered f)))"
      by (simp add: count_matches_def scan_file_ok count_loop_filter)
  }
  {
    assume s: "clock w' 0 = clock w 0 \<and> open_file w' fn = open_file w fn"
    then have "cutoff_time w' (Some h) = cutoff_time w (Some h)"
      by (simp add: cutoff_time_cases)
    moreover from s have "scan_file w' fn kw x = scan_file w fn kw x" for x
      by (simp add: scan_file_def)
    ultimately show "count_matches w' fn kw (Some h) = count_matches w fn kw (Some h)"
      by (simp add: count_matches_def split: sum.splits)
  }
next
  assume "\<not> (0 \<le> clock w 0 - h * us_per_hour \<and> clock w 0 - h * us_per_hour < max_us)"
  then have "cutoff_time w (Some h) = Inl OverflowError"
    by (simp add: cutoff_time_cases)
  then show "count_matches w fn kw (Some h) = Inl OverflowError"
    by (simp add: count_matches_def)
qed

lemma scenario_clock: "clock scenario_world 0 = 63899404200000000"
  by (simp add: scenario_world_def)

theorem cutoff_computed_once_witness:
  "(0 \<le> clock scenario_world 0 - 1 * us_per_hour \<and> clock scenario_world 0 - 1 * us_per_hour < max_us)
   \<and> cutoff_time scenario_world (Some 1) = Inr (Some 63899400600000000)
   \<and> clock scenario_world 1 \<noteq> clock scenario_world 0
   \<and> count_matches scenario_world ''app.log'' ''ERROR'' (Some 1) =
       Inr (length (filter (counts ''ERROR'' (Some 63899400600000000)) scenario_lines))
   \<and> count_matches frozen_world ''app.log'' ''ERROR'' (Some 1) =
       count_matches scenario_world ''app.log'' ''ERROR'' (Some 1)
   \<and> \<not> (0 \<le> clock scenario_world 0 - 100000000 * us_per_hour)
   \<and> count_matches scenario_world ''app.log'' ''ERROR'' (Some 100000000) = Inl OverflowError"
proof -
  have r: "0 \<le> clock scenario_world 0 - 1 * us_per_hour \<and>
      clock scenario_world 0 - 1 * us_per_hour < max_us"
    by (simp add: scenario_clock us_per_hour_def max_us_def)
  have v: "clock scenario_world 0 - 1 * us_per_hour = 63899400600000000"
    by (simp add: scenario_clock us_per_hour_def)
  have t: "clock scenario_world 1 \<noteq> clock scenario_world 0"
    by (simp add: scenario_world_def)
  have fw: "clock frozen_world 0 = clock scenario_world 0 \<and>
      open_file frozen_world ''app.log'' = open_file scenario_world ''app.log''"
    by (simp add: frozen_world_def scenario_world_def)
  have n: "\<not> (0 \<le> clock scenario_world 0 - 100000000 * us_per_hour)"
    by (simp add: scenario_clock us_per_hour_def)
  from cutoff_computed_once [of scenario_world 1 "''app.log''"
      "\<lparr>delivered = scenario_lines, read_failure = None\<rparr>" "''ERROR''" frozen_world]
    r scenario_open fw
  have a: "cutoff_time scenario_world (Some 1) = Inr (Some (clock scenario_world 0 - 1 * us_per_hour))
     \<and> count_matches scenario_world ''app.log'' ''ERROR'' (Some 1) =
         Inr (length (filter (counts ''ERROR'' (Some (clock scenario_world 0 - 1 * us_per_hour)))
           scenario_lines))
     \<and> count_matches frozen_world ''app.log'' ''ERROR'' (Some 1) =
         count_matches scenario_world ''app.log'' ''ERROR'' (Some 1)"
    by simp
  from cutoff_computed_once [of scenario_world 100000000 "''app.log''"] n
  have b: "count_matches scenario_world ''app.log'' ''ERROR'' (Some 100000000) = Inl OverflowError"
    by blast
  from a b r t n show ?thesis unfolding v by blast
qed

text \<open>
  Claim C5 as it is written fails for a window of 100000000 hours at 2025-11-22T10:30:00:
  no cutoff is computed and the run ends with \<open>OverflowError\<close>.
\<close>

theorem cutoff_overflow_counterexample:
  "cutoff_time scenario_world (Some 100000000) = Inl OverflowError
   \<and> cutoff_time scenario_world (Some 100000000) \<noteq>
       Inr (Some (clock scenario_world 0 - 100000000 * us_per_hour))
   \<and> count_matches scenario_world ''app.log'' ''ERROR'' (Some 100000000) = Inl OverflowError
   \<and> main scenario_world \<lparr>arg_logfile = ''app.log'', arg_keyword = ''ERROR'',
        arg_hours = Some 100000000\<rparr> = ([ErrorReading OverflowError], 1)"
  by (simp add: main_def exit_status_def count_matches_def cutoff_time_def scenario_world_def
      us_per_hour_def max_us_def)

lemma scan_file_failure:
  "input_failure w fn e \<Longrightarrow> scan_file w fn kw cutoff = Inl (IOFailure e)"
  by (auto simp: input_failure_def scan_file_def split: sum.splits)

lemma count_matches_failure:
  "input_failure w fn e \<Longrightarrow> \<exists>x. count_matches w fn kw hours = Inl x"
  by (cases "cutoff_time w hours") (simp_all add: count_matches_def scan_file_failure)

lemma print_lines_subset: "set (fst (print_lines w k ls)) \<subseteq> set ls"
proof (induction ls arbitrary: k)
  case Nil
  show ?case by simp
next
  case (Cons l ls)
  from Cons.IH [of "Suc k"] show ?case
    by auto
qed

lemma print_lines_all: "snd (print_lines w k ls) \<Longrightarrow> fst (print_lines w k ls) = ls"
proof (induction ls arbitrary: k)
  case Nil
  show ?case by simp
next
  case (Cons l ls)
  from Cons.prems have p: "print_ok w k l" and q: "snd (print_lines w (Suc k) ls)"
    by (auto split: if_splits)
  from q have "fst (print_lines w (Suc k) ls) = ls" by (rule Cons.IH)
  with p show ?case by simp
qed

lemma exit_status_values:
  "exit_status w s = (if flush_ok w then s else 120)" "exit_status w 1 \<noteq> 0"
  by (simp_all add: exit_status_def)

lemma main_not_found:
  "\<not> path_exists w (arg_logfile a) \<Longrightarrow>
   main w a = (fst (print_lines w 0 [NotFound (arg_logfile a)]), exit_status w 1)"
  by (simp add: main_def)

lemma main_raised:
  "path_exists w (arg_logfile a) \<Longrightarrow>
   count_matches w (arg_logfile a) (arg_keyword a) (arg_hours a) = Inl x \<Longrightarrow>
   main w a = (fst (print_lines w 0 [ErrorReading x]), exit_status w 1)"
  by (simp add: main_def)

lemma main_returned:
  "path_exists w (arg_logfile a) \<Longrightarrow>
   count_matches w (arg_logfile a) (arg_keyword a) (arg_hours a) = Inr n \<Longrightarrow>
   main w a = (fst (print_lines w 0 (report a n)),
     exit_status w (if snd (print_lines w 0 (report a n)) then 0 else 1))"
  by (cases "print_lines w 0 (report a n)") (simp add: main_def)

lemma main_failure:
  assumes "\<not> path_exists w (arg_logfile a)
    \<or> (\<exists>x. count_matches w (arg_logfile a) (arg_keyword a) (arg_hours a) = Inl x)"
  shows "snd (main w a) = exit_status w 1 \<and> (\<forall>n. MatchesFound n \<notin> set (fst (main w a)))"
proof -
  from assms obtain l where m: "main w a = (fst (print_lines w 0 [l]), exit_status w 1)"
    and l: "\<forall>n. l \<noteq> MatchesFound n"
    using main_not_found [of w a] main_raised [of w a] by (cases "path_exists w (arg_logfile a)") auto
  have "set (fst (print_lines w 0 [l])) \<subseteq> {l}"
    using print_lines_subset [of w 0 "[l]"] by simp
  with l have "\<forall>n. MatchesFound n \<notin> set (fst (print_lines w 0 [l]))" by blast
  with m show ?thesis by simp
qed

text \<open>
  Claim C6. When opening the file raises \<open>e\<close> or reading it ends with \<open>e\<close>, the scan
  fails with \<open>e\<close> and returns no count, whatever was counted before the failure, and so
  does \<open>count_matches\<close> once the cutoff is computed. When the path does not exist or the
  input fails, the exit status of \<open>main\<close> is not zero (it is 1, or 120 when the flush of
  the standard output fails at exit) and no count is printed. When \<open>count_matches\<close>
  returns a count \<open>n\<close> and the report is written, every \<open>print\<close> returning and the flush
  succeeding, \<open>main\<close> prints the report with \<open>n\<close> and the exit status is 0, for every
  \<open>n\<close>; the status is 1 when a \<open>print\<close> of the report raises. The scan of a file that
  opens and reads to its end returns a count, whatever its lines.
\<close>

theorem input_failure_is_fatal:
  "(input_failure w fn e \<longrightarrow>
      scan_file w fn kw cutoff = Inl (IOFailure e)
      \<and> (cutoff_time w hours = Inr cutoff \<longrightarrow> count_matches w fn kw hours = Inl (IOFailure e)))
   \<and> (\<not> path_exists w (arg_logfile a) \<or> input_failure w (arg_logfile a) e \<longrightarrow>
        snd (main w a) = (if flush_ok w then 1 else 120)
        \<and> snd (main w a) \<noteq> 0
        \<and> (\<forall>n. MatchesFound n \<notin> set (fst (main w a))))
   \<and> (path_exists w (arg_logfile a)
        \<and> count_matches w (arg_logfile a) (arg_keyword a) (arg_hours a) = Inr n \<longrightarrow>
        snd (main w a) =
          exit_status w (if snd (print_lines w 0 (report a n)) then 0 else 1)
        \<and> (snd (print_lines w 0 (report a n)) \<and> flush_ok w \<longrightarrow>
             main w a = (report a n, 0)
             \<and> snd (main w a) = 0 \<and> MatchesFound n \<in> set (fst (main w a))))
   \<and> (open_file w fn = Inr f \<and> read_failure f = None \<longrightarrow>
        scan_file w fn kw cutoff = Inr (count_loop kw cutoff (delivered f) 0))"
proof (intro conjI impI)
  assume i: "input_failure w fn e"
  then show "scan_file w fn kw cutoff = Inl (IOFailure e)"
    by (rule scan_file_failure)
  assume "cutoff_time w hours = Inr cutoff"
  with i show "count_matches w fn kw hours = Inl (IOFailure e)"
    by (simp add: count_matches_def scan_file_failure)
next
  assume h: "\<not> path_exists w (arg_logfile a) \<or> input_failure w (arg_logfile a) e"
  then have "\<not> path_exists w (arg_logfile a)
      \<or> (\<exists>x. count_matches w (arg_logfile a) (arg_keyword a) (arg_hours a) = Inl x)"
    using count_matches_failure by blast
  then have f: "snd (main w a) = exit_status w 1 \<and> (\<forall>n. MatchesFound n \<notin> set (fst (main w a)))"
    by (rule main_failure)
  then show "snd (main w a) = (if flush_ok w then 1 else 120)"
    by (simp add: exit_status_values(1))
  from f show "snd (main w a) \<noteq> 0"
    by (simp add: exit_status_values(2))
  from f show "\<forall>n. MatchesFound n \<notin> set (fst (main w a))"
    by blast
next
  assume s: "path_exists w (arg_logfile a)
    \<and> count_matches w (arg_logfile a) (arg_keyword a) (arg_hours a) = Inr n"
  then have m: "main w a = (fst (print_lines w 0 (report a n)),
      exit_status w (if snd (print_lines w 0 (report a n)) then 0 else 1))"
    by (simp add: main_returned)
  then show "snd (main w a) =
      exit_status w (if snd (print_lines w 0 (report a n)) then 0 else 1)"
    by simp
  assume p: "snd (print_lines w 0 (report a n)) \<and> flush_ok w"
  then have "fst (print_lines w 0 (report a n)) = report a n"
    by (simp add: print_lines_all)
  with m p show r: "main w a = (report a n, 0)"
    by (simp add: exit_status_def)
  then show "snd (main w a) = 0" by simp
  from r show "MatchesFound n \<in> set (fst (main w a))" by (simp add: report_def)
next
  assume "open_file w fn = Inr f \<and> read_failure f = None"
  then show "scan_file w fn kw cutoff = Inr (count_loop kw cutoff (delivered f) 0)"
    by (simp add: scan_file_ok)
qed

lemma cut_world_failure: "input_failure cut_world ''cut.log'' UnicodeDecodeError"
  by (simp add: input_failure_def cut_world_def scenario_world_def)

lemma cut_world_loop:
  "count_loop ''ERROR'' None scenario_lines 0 = 3"
  by code_simp

lemma app_count: "count_matches cut_world ''app.log'' ''ERROR'' None = Inr 3"
  by (simp add: count_matches_def cutoff_time_def scan_file_def cut_world_def
      scenario_world_def cut_world_loop)

lemma cut_world_prints: "snd (print_lines cut_world 0 (report app_args 3)) \<and> flush_ok cut_world"
  by (simp add: report_def app_args_def cut_world_def scenario_world_def)

lemma accent_count: "count_matches ascii_world ''app.log'' [CHR 0xE9] None = Inr 0"
  by code_simp

lemma accent_prints:
  "print_lines ascii_world 0 (report accent_args 0) = ([LogAnalysis ''app.log''], False)"
  by (simp add: report_def accent_args_def ascii_world_def)

theorem input_failure_is_fatal_witness:
  "input_failure cut_world ''cut.log'' UnicodeDecodeError
   \<and> path_exists cut_world ''cut.log''
   \<and> count_loop ''ERROR'' None scenario_lines 0 = 3
   \<and> scan_file cut_world ''cut.log'' ''ERROR'' None = Inl (IOFailure UnicodeDecodeError)
   \<and> count_matches cut_world ''cut.log'' ''ERROR'' None = Inl (IOFailure UnicodeDecodeError)
   \<and> snd (main cut_world cut_args) = 1
   \<and> (\<forall>n. MatchesFound n \<notin> set (fst (main cut_world cut_args)))
   \<and> count_matches cut_world ''app.log'' ''ERROR'' None = Inr 3
   \<and> snd (print_lines cut_world 0 (report app_args 3))
   \<and> flush_ok cut_world
   \<and> main cut_world app_args = (report app_args 3, 0)
   \<and> snd (main cut_world app_args) = 0
   \<and> MatchesFound 3 \<in> set (fst (main cut_world app_args))
   \<and> count_matches ascii_world ''app.log'' [CHR 0xE9] None = Inr 0
   \<and> print_lines ascii_world 0 (report accent_args 0) = ([LogAnalysis ''app.log''], False)
   \<and> snd (main ascii_world accent_args) = 1
   \<and> input_failure full_world ''cut.log'' UnicodeDecodeError
   \<and> snd (main full_world cut_args) = 120"
proof -
  have c: "cutoff_time cut_world None = Inr None"
    by (simp add: cutoff_time_def)
  have p: "path_exists cut_world ''cut.log'' \<and> path_exists cut_world ''app.log''
      \<and> path_exists ascii_world ''app.log''"
    by (simp add: cut_world_def ascii_world_def)
  have l: "arg_logfile cut_args = ''cut.log'' \<and> arg_logfile app_args = ''app.log''
      \<and> arg_keyword app_args = ''ERROR'' \<and> arg_hours app_args = None
      \<and> arg_logfile accent_args = ''app.log'' \<and> arg_keyword accent_args = [CHR 0xE9]
      \<and> arg_hours accent_args = None"
    by (simp add: cut_args_def app_args_def accent_args_def)
  have fl: "flush_ok cut_world \<and> flush_ok ascii_world"
    by (simp add: cut_world_def ascii_world_def scenario_world_def)
  from input_failure_is_fatal [of cut_world "''cut.log''" UnicodeDecodeError "''ERROR''" None None
      cut_args] cut_world_failure c l fl
  have a: "scan_file cut_world ''cut.log'' ''ERROR'' None = Inl (IOFailure UnicodeDecodeError)
      \<and> count_matches cut_world ''cut.log'' ''ERROR'' None = Inl (IOFailure UnicodeDecodeError)
      \<and> snd (main cut_world cut_args) = 1
      \<and> (\<forall>n. MatchesFound n \<notin> set (fst (main cut_world cut_args)))"
    by simp
  from input_failure_is_fatal [of cut_world "''cut.log''" UnicodeDecodeError "''ERROR''" None None
      app_args 3] app_count p l cut_world_prints
  have b: "main cut_world app_args = (report app_args 3, 0)
      \<and> snd (main cut_world app_args) = 0
      \<and> MatchesFound 3 \<in> set (fst (main cut_world app_args))"
    by (simp add: report_def)
  from input_failure_is_fatal [of ascii_world "''cut.log''" UnicodeDecodeError "''ERROR''" None None
      accent_args 0] accent_count p l
  have "snd (main ascii_world accent_args) =
      exit_status ascii_world (if snd (print_lines ascii_world 0 (report accent_args 0)) then 0 else 1)"
    by simp
  then have d: "snd (main ascii_world accent_args) = 1"
    using fl by (simp add: accent_prints exit_status_def)
  have ff: "input_failure full_world ''cut.log'' UnicodeDecodeError"
    by (simp add: input_failure_def full_world_def cut_world_def scenario_world_def)
  have nf: "\<not> flush_ok full_world"
    by (simp add: full_world_def)
  from input_failure_is_fatal [of full_world "''cut.log''" UnicodeDecodeError "''ERROR''" None None
      cut_args] ff l nf
  have g: "snd (main full_world cut_args) = 120"
    by simp
  from a b d g ff cut_world_failure p cut_world_loop app_count cut_world_prints accent_count
    accent_prints
  show ?thesis by blast
qed

text \<open>
  Claim C8. Two runs that read the same instant from the clock at their start and get the
  same lines and the same end of reading from the file return the same result, for the
  same keyword and window, whatever else differs between their worlds.
\<close>

theorem count_matches_deterministic:
  assumes "clock w1 0 = clock w2 0" and "open_file w1 fn = open_file w2 fn"
  shows "count_matches w1 fn kw hours = count_matches w2 fn kw hours"
proof -
  have "cutoff_time w1 hours = cutoff_time w2 hours"
    using assms(1) by (cases hours) (simp_all add: cutoff_time_def)
  moreover have "scan_file w1 fn kw x = scan_file w2 fn kw x" for x
    using assms(2) by (simp add: scan_file_def)
  ultimately show ?thesis
    by (simp add: count_matches_def split: sum.splits)
qed

theorem count_matches_deterministic_witness:
  "clock cut_world 0 = clock frozen_world 0
   \<and> open_file cut_world ''app.log'' = open_file frozen_world ''app.log''
   \<and> cut_world \<noteq> frozen_world
   \<and> count_matches cut_world ''app.log'' ''ERROR'' (Some 1) =
       count_matches frozen_world ''app.log'' ''ERROR'' (Some 1)"
proof -
  have c: "clock cut_world 0 = clock frozen_world 0"
    by (simp add: cut_world_def frozen_world_def scenario_world_def)
  have f: "open_file cut_world ''app.log'' = open_file frozen_world ''app.log''"
    by (simp add: cut_world_def frozen_world_def)
  have "path_exists cut_world ''x'' \<noteq> path_exists frozen_world ''x''"
    by (simp add: cut_world_def frozen_world_def scenario_world_def)
  then have d: "cut_world \<noteq> frozen_world" by auto
  from count_matches_deterministic [OF c f, of "''ERROR''" "Some 1"] c f d
  show ?thesis by blast
qed

lemma counts_window_imp: "counts kw (Some c) line \<Longrightarrow> counts kw None line"
  by (simp add: counts_iff)

lemma filter_window_le:
  "length (filter (counts kw (Some c)) ls) \<le> length (filter (counts kw None) ls)"
  by (induction ls) (auto dest: counts_window_imp)

text \<open>
  Claim C9. Over the same lines and keyword the loop counts at most as many lines under a
  cutoff as without one, and without a cutoff at most the number of lines. When
  \<open>count_matches\<close> returns a count under a window, it returns one without a window that
  is at least as large and at most the number of lines delivered.
\<close>

theorem windowed_count_le_unwindowed:
  "count_loop kw (Some c) ls 0 \<le> count_loop kw None ls 0
   \<and> count_loop kw None ls 0 \<le> length ls
   \<and> (count_matches w fn kw (Some h) = Inr a \<longrightarrow>
        (\<exists>b f. count_matches w fn kw None = Inr b \<and> open_file w fn = Inr f
           \<and> a \<le> b \<and> b \<le> length (delivered f)))"
proof (intro conjI impI)
  show le: "count_loop kw (Some c) ls 0 \<le> count_loop kw None ls 0" for c ls
    by (simp add: count_loop_filter filter_window_le)
  show len: "count_loop kw None ls 0 \<le> length ls" for ls
    by (simp add: count_loop_filter)
  assume r: "count_matches w fn kw (Some h) = Inr a"
  then obtain c where c: "cutoff_time w (Some h) = Inr (Some c)"
    by (auto simp: count_matches_def cutoff_time_cases split: if_splits)
  with r have s: "scan_file w fn kw (Some c) = Inr a"
    by (simp add: count_matches_def)
  then obtain f where f: "open_file w fn = Inr f" "read_failure f = None"
    "a = count_loop kw (Some c) (delivered f) 0"
    by (auto simp: scan_file_def split: sum.splits option.splits)
  have "count_matches w fn kw None = Inr (count_loop kw None (delivered f) 0)"
    using f by (simp add: count_matches_def cutoff_time_def scan_file_ok)
  with f le [of c "delivered f"] len [of "delivered f"]
  show "\<exists>b f. count_matches w fn kw None = Inr b \<and> open_file w fn = Inr f
           \<and> a \<le> b \<and> b \<le> length (delivered f)"
    by blast
qed

lemma windowed_run: "count_matches scenario_world ''app.log'' ''ERROR'' (Some 1) = Inr 1"
  by code_simp

lemma unwindowed_run: "count_matches scenario_world ''app.log'' ''ERROR'' None = Inr 3"
  by code_simp

theorem windowed_count_le_unwindowed_witness:
  "count_matches scenario_world ''app.log'' ''ERROR'' (Some 1) = Inr 1
   \<and> count_loop ''ERROR'' (Some 63899400600000000) scenario_lines 0
        \<le> count_loop ''ERROR'' None scenario_lines 0
   \<and> count_loop ''ERROR'' None scenario_lines 0 \<le> length scenario_lines
   \<and> (\<exists>b f. count_matches scenario_world ''app.log'' ''ERROR'' None = Inr b
         \<and> open_file scenario_world ''app.log'' = Inr f \<and> 1 \<le> b \<and> b \<le> length (delivered f))"
  using windowed_count_le_unwindowed [of "''ERROR''" 63899400600000000 scenario_lines
      scenario_world "''app.log''" 1 1] windowed_run
  by blast

lemma contains_empty: "contains [] line"
  by (cases line) (simp_all add: startswith_def)

lemma counts_empty: "counts [] None line"
  by (simp add: counts_iff contains_empty)

text \<open>
  Claim C10. The empty keyword is contained in every line and nothing refuses it: without
  a window the loop counts every line, \<open>count_matches\<close> returns the number of lines
  delivered, and \<open>main\<close> reports that number with exit status 0 when the report is
  written, every \<open>print\<close> returning and the flush succeeding.
\<close>

theorem empty_keyword_counts_every_line:
  "contains [] line
   \<and> count_loop [] None ls 0 = length ls
   \<and> (open_file w fn = Inr f \<and> read_failure f = None \<longrightarrow>
        count_matches w fn [] None = Inr (length (delivered f))
        \<and> (path_exists w fn
             \<and> snd (print_lines w 0 (report \<lparr>arg_logfile = fn, arg_keyword = [],
                   arg_hours = None\<rparr> (length (delivered f))))
             \<and> flush_ok w \<longrightarrow>
             main w \<lparr>arg_logfile = fn, arg_keyword = [], arg_hours = None\<rparr> =
               ([LogAnalysis fn, Keyword [], WindowAll, MatchesFound (length (delivered f)),
                 AnalysisComplete], 0)))"
proof (intro conjI impI)
  show "contains [] line" by (rule contains_empty)
  show all: "count_loop [] None ls 0 = length ls" for ls
    by (simp add: count_loop_filter counts_empty)
  assume "open_file w fn = Inr f \<and> read_failure f = None"
  then show c: "count_matches w fn [] None = Inr (length (delivered f))"
    by (simp add: count_matches_def cutoff_time_def scan_file_ok all)
  assume p: "path_exists w fn
    \<and> snd (print_lines w 0 (report \<lparr>arg_logfile = fn, arg_keyword = [],
          arg_hours = None\<rparr> (length (delivered f))))
    \<and> flush_ok w"
  then have "fst (print_lines w 0 (report \<lparr>arg_logfile = fn, arg_keyword = [],
        arg_hours = None\<rparr> (length (delivered f)))) =
      report \<lparr>arg_logfile = fn, arg_keyword = [], arg_hours = None\<rparr> (length (delivered f))"
    by (simp add: print_lines_all)
  with c p have "main w \<lparr>arg_logfile = fn, arg_keyword = [], arg_hours = None\<rparr> =
      (report \<lparr>arg_logfile = fn, arg_keyword = [], arg_hours = None\<rparr> (length (delivered f)), 0)"
    using main_returned [of w "\<lparr>arg_logfile = fn, arg_keyword = [], arg_hours = None\<rparr>"
        "length (delivered f)"]
    by (simp add: exit_status_def)
  then show "main w \<lparr>arg_logfile = fn, arg_keyword = [], arg_hours = None\<rparr> =
      ([LogAnalysis fn, Keyword [], WindowAll, MatchesFound (length (delivered f)),
        AnalysisComplete], 0)"
    by (simp add: report_def)
qed

lemma scenario_exists: "path_exists scenario_world ''app.log''"
  by (simp add: scenario_world_def)

lemma scenario_length: "length scenario_lines = 3"
  by (simp add: scenario_lines_def)

lemma scenario_prints: "snd (print_lines scenario_world k ls) \<and> flush_ok scenario_world"
proof
  have "print_ok scenario_world j l" for j l
    by (simp add: scenario_world_def)
  then show "snd (print_lines scenario_world k ls)"
    by (induction ls arbitrary: k) simp_all
  show "flush_ok scenario_world" by (simp add: scenario_world_def)
qed

theorem empty_keyword_counts_every_line_witness:
  "open_file scenario_world ''app.log'' = Inr \<lparr>delivered = scenario_lines, read_failure = None\<rparr>
   \<and> path_exists scenario_world ''app.log''
   \<and> snd (print_lines scenario_world 0 (report \<lparr>arg_logfile = ''app.log'', arg_keyword = [],
         arg_hours = None\<rparr> 3))
   \<and> flush_ok scenario_world
   \<and> contains [] ''no timestamp here ERROR''
   \<and> count_matches scenario_world ''app.log'' [] None = Inr 3
   \<and> main scenario_world \<lparr>arg_logfile = ''app.log'', arg_keyword = [], arg_hours = None\<rparr> =
       ([LogAnalysis ''app.log'', Keyword [], WindowAll, MatchesFound 3, AnalysisComplete], 0)"
  using empty_keyword_counts_every_line [of "''no timestamp here ERROR''" "[]" scenario_world
      "''app.log''" "\<lparr>delivered = scenario_lines, read_failure = None\<rparr>"]
    scenario_open scenario_exists scenario_length
    scenario_prints [of 0 "report \<lparr>arg_logfile = ''app.log'', arg_keyword = [],
      arg_hours = None\<rparr> 3"]
  by simp

lemma bad_line_parse: "parse_timestamp ''[2025-13-99T99:99:99] ERROR'' = None"
  by code_simp

text \<open>
  Claim C7. With the clock at 2025-11-22T10:30:00, the three example lines and the keyword
  \<open>ERROR\<close>: the count is 3 without a window, and 1 with a window of one hour, whose
  cutoff is 2025-11-22T09:30:00 and which only the first line passes. The single line
  \<open>[2025-13-99T99:99:99] ERROR\<close> gives the count 0 under every cutoff.
\<close>

theorem scenario_counts:
  "datetime_new 2025 11 22 10 30 0 0 = Some (clock scenario_world 0)
   \<and> count_matches scenario_world ''app.log'' ''ERROR'' None = Inr 3
   \<and> cutoff_time scenario_world (Some 1) = Inr (datetime_new 2025 11 22 9 30 0 0)
   \<and> map (counts ''ERROR'' (datetime_new 2025 11 22 9 30 0 0)) scenario_lines
        = [True, False, False]
   \<and> count_matches scenario_world ''app.log'' ''ERROR'' (Some 1) = Inr 1
   \<and> (\<forall>c. count_loop ''ERROR'' (Some c) [''[2025-13-99T99:99:99] ERROR''] 0 = 0)
   \<and> count_matches scenario_world ''bad.log'' ''ERROR'' (Some 1) = Inr 0"
proof (intro conjI)
  show "datetime_new 2025 11 22 10 30 0 0 = Some (clock scenario_world 0)"
    by code_simp
  show "count_matches scenario_world ''app.log'' ''ERROR'' None = Inr 3"
    by (rule unwindowed_run)
  show "cutoff_time scenario_world (Some 1) = Inr (datetime_new 2025 11 22 9 30 0 0)"
    by code_simp
  show "map (counts ''ERROR'' (datetime_new 2025 11 22 9 30 0 0)) scenario_lines
        = [True, False, False]"
    by code_simp
  show "count_matches scenario_world ''app.log'' ''ERROR'' (Some 1) = Inr 1"
    by (rule windowed_run)
  show "\<forall>c. count_loop ''ERROR'' (Some c) [''[2025-13-99T99:99:99] ERROR''] 0 = 0"
    by (simp add: count_loop_filter counts_iff bad_line_parse)
  show "count_matches scenario_world ''bad.log'' ''ERROR'' (Some 1) = Inr 0"
    by code_simp
qed

theorem scenario_counts_witness:
  "count_matches scenario_world ''app.log'' ''ERROR'' None = Inr 3
   \<and> count_matches scenario_world ''app.log'' ''ERROR'' (Some 1) = Inr 1
   \<and> count_loop ''ERROR'' (Some 0) [''[2025-13-99T99:99:99] ERROR''] 0 = 0"
  using scenario_counts by blast

end
